theory Spec2Isabelle
  imports Main "HOL-Library.Word"
begin

section \<open>C values: int, pointers, memory\<close>

text \<open>
  The demo program (main.c) works on C \<open>int\<close> values, which are 32-bit two's complement
  words, and on a \<open>const char *\<close> into a NUL-terminated character array. A pointer is
  either the null pointer or a block together with an offset into that block; the memory
  maps a block to the characters it holds. Dereferencing the null pointer, a pointer into
  no block or an offset outside its block is a fault.
\<close>

type_synonym c_int = "32 word"

datatype ptr = Null | Ptr nat nat

type_synonym heap = "nat \<Rightarrow> string option"

datatype fault = Null_deref | No_block | Out_of_bounds

definition NUL :: char where
  "NUL = CHR 0x00"

fun load :: "heap \<Rightarrow> ptr \<Rightarrow> fault + char" where
  "load h Null = Inl Null_deref"
| "load h (Ptr b off) =
     (case h b of
        None \<Rightarrow> Inl No_block
      | Some blk \<Rightarrow> if off < length blk then Inr (blk ! off) else Inl Out_of_bounds)"

text \<open>
  \<open>c++\<close> on a pointer: the next element of the same block. The program only advances a
  pointer it has just dereferenced, so the null case is never reached without a fault.
\<close>

fun ptr_inc :: "ptr \<Rightarrow> ptr" where
  "ptr_inc Null = Null"
| "ptr_inc (Ptr b off) = Ptr b (off + 1)"

text \<open>
  \<open>cstring h p s\<close>: in memory \<open>h\<close>, \<open>p\<close> points to the characters \<open>s\<close>, none of them
  NUL, followed by the terminating NUL.
\<close>

fun cstring :: "heap \<Rightarrow> ptr \<Rightarrow> string \<Rightarrow> bool" where
  "cstring h Null s = False"
| "cstring h (Ptr b off) s =
     (case h b of
        None \<Rightarrow> False
      | Some blk \<Rightarrow> NUL \<notin> set s \<and> take (length s + 1) (drop off blk) = s @ [NUL])"

section \<open>main.c: bar\<close>

text \<open>
  \<^verbatim>\<open>
  void bar(const char* str, int len){
      int count = 0;
      char* c = str;
      for(int i = 0; (*c++) && i < len; ++i){
          count++;
      }
      printf("Matching count ? %s\n", (c ? "No" : "Yes"));
  }
  \<close>
  The loop condition dereferences \<open>c\<close> and advances it before it looks at \<open>i < len\<close>;
  \<open>i < len\<close> is only evaluated when the character read is not NUL. The record below is
  what the loop leaves behind: the cursor \<open>c\<close>, the counter, and the pointers that were
  dereferenced, in order.
\<close>

record scan =
  cursor :: ptr
  counter :: c_int
  derefs :: "ptr list"

function bar_loop :: "heap \<Rightarrow> c_int \<Rightarrow> ptr \<Rightarrow> c_int \<Rightarrow> c_int \<Rightarrow> ptr list \<Rightarrow> fault + scan" where
  "bar_loop h len c i count ds =
     (case load h c of
        Inl e \<Rightarrow> Inl e
      | Inr ch \<Rightarrow>
          if ch \<noteq> NUL \<and> i <s len
          then bar_loop h len (ptr_inc c) (i + 1) (count + 1) (ds @ [c])
          else Inr \<lparr>cursor = ptr_inc c, counter = count, derefs = ds @ [c]\<rparr>)"
  by pat_completeness auto
termination
proof (relation "measure (\<lambda>(h, len, c, i, count, ds). nat (sint len - sint i))", goal_cases)
  case 1
  show ?case by simp
next
  case (2 h len c i count ds ch)
  then have lt: "sint i < sint len"
    by (simp add: word_sless_alt)
  have "sint len < 2 ^ 31" and "- (2 ^ 31) \<le> sint i"
    using sint_lt [of len] sint_ge [of i] by simp_all
  with lt have "signed_take_bit 31 (sint i + 1) = sint i + 1"
    by (intro signed_take_bit_int_eq_self) auto
  then have "sint (i + 1) = sint i + 1"
    by (simp add: sint_word_ariths)
  with lt show ?case by simp
qed

declare bar_loop.simps [simp del]

definition bar_scan :: "heap \<Rightarrow> ptr \<Rightarrow> c_int \<Rightarrow> fault + scan" where
  "bar_scan h str len = bar_loop h len str 0 0 []"

text \<open>
  Standard output is the list of the strings handed to it so far, one entry for each call
  of \<open>printf\<close>. \<open>printf\<close> returns the number of bytes it wrote, as a C \<open>int\<close>. A count
  above \<open>INT_MAX\<close>, which is \<open>2^31 - 1\<close>, is not a value of \<open>int\<close>: \<open>printf\<close> then fails
  and returns \<open>-1\<close>. The entry is recorded in that case too; how much of it reaches the
  stream is not modelled.
\<close>

type_synonym stdout = "string list"

definition printf :: "string \<Rightarrow> stdout \<Rightarrow> c_int \<times> stdout" where
  "printf s out = (if int (length s) < 2 ^ 31 then of_nat (length s) else - 1, out @ [s])"

definition bar :: "heap \<Rightarrow> ptr \<Rightarrow> c_int \<Rightarrow> stdout \<Rightarrow> fault + stdout" where
  "bar h str len out =
     (case bar_scan h str len of
        Inl e \<Rightarrow> Inl e
      | Inr r \<Rightarrow>
          Inr (snd (printf (''Matching count ? '' @ (if cursor r \<noteq> Null then ''No'' else ''Yes'') @ ''\<newline>'')
                      out)))"

section \<open>main.c: foo and main\<close>

text \<open>
  The conversions of \<open>printf\<close> the program uses. \<open>%d\<close> writes a C \<open>int\<close> in decimal,
  with a minus sign when it is negative. \<open>%s\<close> reads the characters the pointer points to,
  up to the terminating NUL; \<open>strlen\<close> counts them.
\<close>

fun dec_digits :: "nat \<Rightarrow> string" where
  "dec_digits n =
     (if n < 10 then [''0123456789'' ! n]
      else dec_digits (n div 10) @ [''0123456789'' ! (n mod 10)])"

declare dec_digits.simps [simp del]

definition fmt_d :: "c_int \<Rightarrow> string" where
  "fmt_d v = (if sint v < 0 then ''-'' @ dec_digits (nat (- sint v)) else dec_digits (nat (sint v)))"

fun fmt_s :: "heap \<Rightarrow> ptr \<Rightarrow> fault + string" where
  "fmt_s h Null = Inl Null_deref"
| "fmt_s h (Ptr b off) =
     (case h b of
        None \<Rightarrow> Inl No_block
      | Some blk \<Rightarrow>
          if NUL \<in> set (drop off blk) then Inr (takeWhile (\<lambda>ch. ch \<noteq> NUL) (drop off blk))
          else Inl Out_of_bounds)"

definition strlen :: "heap \<Rightarrow> ptr \<Rightarrow> fault + nat" where
  "strlen h p = (case fmt_s h p of Inl e \<Rightarrow> Inl e | Inr s \<Rightarrow> Inr (length s))"

text \<open>
  \<^verbatim>\<open>
  int foo(int x, const char* str, int len) {
      if(x < 10){
          printf("X less than 10\n");
          return -1;
      }

      bar(str, len);
      return printf("%s has %d chars\n", str, len);
  }
  \<close>
\<close>

definition foo :: "heap \<Rightarrow> c_int \<Rightarrow> ptr \<Rightarrow> c_int \<Rightarrow> stdout \<Rightarrow> fault + c_int \<times> stdout" where
  "foo h x str len out =
     (if x <s 10 then Inr (- 1, snd (printf ''X less than 10\<newline>'' out))
      else
        case bar h str len out of
          Inl e \<Rightarrow> Inl e
        | Inr out1 \<Rightarrow>
            (case fmt_s h str of
               Inl e \<Rightarrow> Inl e
             | Inr s \<Rightarrow> Inr (printf (s @ '' has '' @ fmt_d len @ '' chars\<newline>'') out1)))"

text \<open>
  \<^verbatim>\<open>
  int main(){
      int x = 10;
      const char* str = "Hello";
      int len = strlen(str);
      int y = foo(x, str, len);
      printf("Foo return : %d\n", y);
  }
  \<close>
  The string literal is an array of six characters, the last one NUL; it is block 0 of the
  memory \<open>main\<close> runs in. The \<open>size_t\<close> that \<open>strlen\<close> returns is converted to \<open>int\<close>.
  \<open>main\<close> returns 0 when it reaches its end.
\<close>

definition literals :: heap where
  "literals = (\<lambda>b. if b = 0 then Some (''Hello'' @ [NUL]) else None)"

definition main :: "fault + c_int \<times> stdout" where
  "main =
     (let x = 10; str = Ptr 0 0 in
      case strlen literals str of
        Inl e \<Rightarrow> Inl e
      | Inr n \<Rightarrow>
          (let len = of_nat n in
           case foo literals x str len [] of
             Inl e \<Rightarrow> Inl e
           | Inr (y, out) \<Rightarrow> Inr (0, snd (printf (''Foo return : '' @ fmt_d y @ ''\<newline>'') out))))"

section \<open>print_config.c: send_char\<close>

text \<open>
  \<^verbatim>\<open>
  extern UART_HandleTypeDef huart2;

  void send_char(char c){
      HAL_UART_Transmit(&huart2, (uint8_t*) &c, sizeof(c), HAL_MAX_DELAY);
  }
  \<close>
  \<open>HAL_UART_Transmit\<close> belongs to the vendor's hardware abstraction layer. A call of it
  is recorded with its four arguments: the handle, the bytes the data pointer points to
  (as many as the size argument says), the size as \<open>uint16_t\<close> and the timeout as
  \<open>uint32_t\<close>. The peripheral answers each call with a status; which one is up to the
  device, so the device is a parameter.
\<close>

datatype uart_handle = huart2 | Other_uart nat

datatype HAL_StatusTypeDef = HAL_OK | HAL_ERROR | HAL_BUSY | HAL_TIMEOUT

record transmit_call =
  huart :: uart_handle
  pData :: "8 word list"
  Size :: "16 word"
  Timeout :: "32 word"

type_synonym device = "transmit_call \<Rightarrow> HAL_StatusTypeDef"

text \<open>
  Modelled from the spec: the macro \<open>HAL_MAX_DELAY\<close> is not defined in the sources at
  hand; the maximum wait is "effectively wait indefinitely", the largest \<open>uint32_t\<close>.
\<close>

definition HAL_MAX_DELAY :: "32 word" where
  "HAL_MAX_DELAY = 0xFFFFFFFF"

text \<open>
  Modelled from the spec: \<open>HAL_UART_Transmit\<close> is not among the sources at hand. A call
  writes the bytes to the peripheral, here the list of the calls made so far, and reports
  a status, which may be a hardware error or a timeout.
\<close>

definition HAL_UART_Transmit ::
  "device \<Rightarrow> uart_handle \<Rightarrow> 8 word list \<Rightarrow> 16 word \<Rightarrow> 32 word \<Rightarrow> transmit_call list
     \<Rightarrow> HAL_StatusTypeDef \<times> transmit_call list" where
  "HAL_UART_Transmit dev hu data sz tmo calls =
     (let call = \<lparr>huart = hu, pData = take (unat sz) data, Size = sz, Timeout = tmo\<rparr>
      in (dev call, calls @ [call]))"

text \<open>\<open>sizeof(c)\<close> is 1 for a \<open>char\<close>. The status that comes back is dropped.\<close>

definition send_char :: "device \<Rightarrow> 8 word \<Rightarrow> transmit_call list \<Rightarrow> transmit_call list" where
  "send_char dev c calls = snd (HAL_UART_Transmit dev huart2 [c] 1 HAL_MAX_DELAY calls)"

section \<open>Auxiliary definitions for the statements\<close>

text \<open>
  \<open>steps s k len i\<close>: how often the body of the loop of \<open>bar\<close> still runs when the
  cursor is \<open>k\<close> characters into the string \<open>s\<close> and the loop variable is \<open>i\<close>.
  \<open>ptr_add\<close> is pointer arithmetic, the pointer \<open>n\<close> elements further on.
\<close>

definition steps :: "string \<Rightarrow> nat \<Rightarrow> c_int \<Rightarrow> c_int \<Rightarrow> nat" where
  "steps s k len i = min (length s - k) (nat (sint len - sint i))"

text \<open>\<open>heap_of s\<close>: a memory whose block 0 holds the string \<open>s\<close> and its terminator.\<close>

definition heap_of :: "string \<Rightarrow> heap" where
  "heap_of s = (\<lambda>b. if b = 0 then Some (s @ [NUL]) else None)"

fun ptr_add :: "ptr \<Rightarrow> nat \<Rightarrow> ptr" where
  "ptr_add Null n = Null"
| "ptr_add (Ptr b off) n = Ptr b (off + n)"

section \<open>The scan of bar on a NUL-terminated string\<close>

lemma cstring_block:
  assumes "cstring h (Ptr b off) s"
  shows "\<exists>blk. h b = Some blk \<and> NUL \<notin> set s \<and> off + length s < length blk \<and>
    (\<forall>k<length s. blk ! (off + k) = s ! k) \<and> blk ! (off + length s) = NUL"
proof -
  from assms obtain blk where blk: "h b = Some blk" and nn: "NUL \<notin> set s"
    and tk: "take (length s + 1) (drop off blk) = s @ [NUL]"
    by (auto split: option.splits)
  from tk have "length (take (length s + 1) (drop off blk)) = length s + 1"
    by simp
  then have len: "off + length s < length blk"
    by simp
  have nth: "(s @ [NUL]) ! k = blk ! (off + k)" if "k \<le> length s" for k
  proof -
    have "(s @ [NUL]) ! k = take (length s + 1) (drop off blk) ! k"
      by (simp only: tk)
    also have "\<dots> = blk ! (off + k)"
      using that len by simp
    finally show ?thesis .
  qed
  have "blk ! (off + k) = s ! k" if "k < length s" for k
    using nth [of k] that by (simp add: nth_append)
  moreover have "blk ! (off + length s) = NUL"
    using nth [of "length s"] by simp
  ultimately show ?thesis
    using blk nn len by blast
qed

lemma load_cstring_char:
  assumes "cstring h (Ptr b off) s" and "k < length s"
  shows "load h (Ptr b (off + k)) = Inr (s ! k)" and "s ! k \<noteq> NUL"
proof -
  from cstring_block [OF assms(1)] obtain blk where "h b = Some blk" "NUL \<notin> set s"
    "off + length s < length blk" "\<forall>k<length s. blk ! (off + k) = s ! k"
    by blast
  with assms(2) show "load h (Ptr b (off + k)) = Inr (s ! k)"
    by simp
  from \<open>NUL \<notin> set s\<close> assms(2) show "s ! k \<noteq> NUL"
    by (metis nth_mem)
qed

lemma load_cstring_NUL:
  assumes "cstring h (Ptr b off) s"
  shows "load h (Ptr b (off + length s)) = Inr NUL"
proof -
  from cstring_block [OF assms] obtain blk where "h b = Some blk"
    "off + length s < length blk" "blk ! (off + length s) = NUL"
    by blast
  then show ?thesis
    by simp
qed

lemma sint_succ_sless:
  fixes i len :: c_int
  assumes "i <s len"
  shows "sint (i + 1) = sint i + 1"
proof -
  have "sint i < sint len"
    using assms by (simp add: word_sless_alt)
  moreover have "sint len < 2 ^ 31" and "- (2 ^ 31) \<le> sint i"
    using sint_lt [of len] sint_ge [of i] by simp_all
  ultimately have "signed_take_bit 31 (sint i + 1) = sint i + 1"
    by (intro signed_take_bit_int_eq_self) auto
  then show ?thesis
    by (simp add: sint_word_ariths)
qed

lemma bar_loop_cstring:
  assumes "cstring h (Ptr b off) s" and "k \<le> length s"
  shows "bar_loop h len (Ptr b (off + k)) i count ds =
    Inr \<lparr>cursor = Ptr b (off + k + steps s k len i + 1),
         counter = count + of_nat (steps s k len i),
         derefs = ds @ map (Ptr b) [off + k ..< off + k + steps s k len i + 1]\<rparr>"
  using assms(2)
proof (induction "length s - k" arbitrary: k i count ds)
  case 0
  then have k: "k = length s" by simp
  have "steps s k len i = 0"
    by (simp add: steps_def k)
  moreover have "load h (Ptr b (off + k)) = Inr NUL"
    using load_cstring_NUL [OF assms(1)] k by simp
  ultimately show ?case
    by (subst bar_loop.simps) simp
next
  case (Suc n)
  then have k: "k < length s" by simp
  note ld = load_cstring_char [OF assms(1) k]
  show ?case
  proof (cases "i <s len")
    case True
    then have lt: "sint i < sint len"
      by (simp add: word_sless_alt)
    have "nat (sint len - sint i) = Suc (nat (sint len - sint (i + 1)))"
      using lt sint_succ_sless [OF True] by linarith
    moreover have "length s - k = Suc (length s - Suc k)"
      using k by simp
    ultimately have st: "steps s k len i = Suc (steps s (Suc k) len (i + 1))"
      unfolding steps_def by (simp only: min_Suc_Suc)
    have "bar_loop h len (Ptr b (off + k)) i count ds =
          bar_loop h len (Ptr b (off + Suc k)) (i + 1) (count + 1) (ds @ [Ptr b (off + k)])"
      using ld True by (subst bar_loop.simps) simp
    also have "\<dots> = Inr \<lparr>cursor = Ptr b (off + Suc k + steps s (Suc k) len (i + 1) + 1),
         counter = count + 1 + of_nat (steps s (Suc k) len (i + 1)),
         derefs = (ds @ [Ptr b (off + k)]) @
           map (Ptr b) [off + Suc k ..< off + Suc k + steps s (Suc k) len (i + 1) + 1]\<rparr>"
      using Suc.hyps(2) k by (intro Suc.hyps(1)) simp_all
    finally show ?thesis
      by (simp add: st upt_conv_Cons)
  next
    case False
    then have "steps s k len i = 0"
      by (simp add: steps_def word_sless_alt)
    then show ?thesis
      using ld False by (subst bar_loop.simps) simp
  qed
qed

lemma sint_of_nat_small:
  assumes "n < 2 ^ 31"
  shows "sint (of_nat n :: c_int) = int n"
proof -
  have "sint (of_nat n :: c_int) = signed_take_bit 31 (int n)"
    by (simp add: signed_of_nat)
  also have "\<dots> = int n"
    using assms by (intro signed_take_bit_int_eq_self) auto
  finally show ?thesis .
qed

lemma bar_scan_cstring:
  assumes "cstring h (Ptr b off) s"
  shows "bar_scan h (Ptr b off) len =
    Inr \<lparr>cursor = Ptr b (off + steps s 0 len 0 + 1),
         counter = of_nat (steps s 0 len 0),
         derefs = map (Ptr b) [off ..< off + steps s 0 len 0 + 1]\<rparr>"
  using bar_loop_cstring [OF assms, of 0 len 0 0 "[]"] by (simp add: bar_scan_def)

lemma steps_start: "steps s 0 len 0 = min (length s) (nat (sint len))"
  by (simp add: steps_def)

lemma sint_counter:
  "sint (of_nat (steps s 0 len 0) :: c_int) = max 0 (min (sint len) (int (length s)))"
proof -
  have "steps s 0 len 0 \<le> nat (sint len)"
    by (simp add: steps_start)
  moreover have "nat (sint len) < 2 ^ 31"
    using sint_lt [of len] by simp
  ultimately have "steps s 0 len 0 < 2 ^ 31"
    by linarith
  then have "sint (of_nat (steps s 0 len 0) :: c_int) = int (steps s 0 len 0)"
    by (rule sint_of_nat_small)
  then show ?thesis
    by (simp add: steps_start)
qed

lemma bar_cstring:
  assumes "cstring h str s"
  shows "bar h str len out = Inr (out @ [''Matching count ? No\<newline>''])"
proof (cases str)
  case Null
  with assms show ?thesis by simp
next
  case (Ptr b off)
  with assms show ?thesis
    by (simp add: bar_def bar_scan_cstring printf_def)
qed

lemma fmt_s_cstring:
  assumes "cstring h str s"
  shows "fmt_s h str = Inr s"
proof (cases str)
  case Null
  with assms show ?thesis by simp
next
  case (Ptr b off)
  with assms obtain blk where blk: "h b = Some blk" and nn: "NUL \<notin> set s"
    and tk: "take (length s + 1) (drop off blk) = s @ [NUL]"
    by (auto split: option.splits)
  have "drop off blk = take (length s + 1) (drop off blk) @ drop (length s + 1) (drop off blk)"
    by (simp only: append_take_drop_id)
  then have dr: "drop off blk = s @ NUL # drop (length s + 1) (drop off blk)"
    by (simp only: tk) simp
  have "NUL \<in> set (drop off blk)"
    by (subst dr) simp
  moreover have "takeWhile (\<lambda>ch. ch \<noteq> NUL) (drop off blk) = s"
    using nn by (subst dr) (auto simp: takeWhile_tail)
  ultimately show ?thesis
    using Ptr blk by simp
qed

lemma cstring_Hello: "cstring literals (Ptr 0 0) ''Hello''"
  by (simp add: literals_def NUL_def)

lemma not_sless_iff_sle: "(\<not> x <s (10 :: c_int)) = (10 \<le>s x)"
  by (simp add: word_sless_alt word_sle_eq not_less)

lemma map_ptr_add: "map (ptr_add (Ptr b off)) [0..<n] = map (Ptr b) [off..<off + n]"
proof -
  have "map (Ptr b) [off..<off + n] = map (Ptr b) (map (\<lambda>i. i + off) [0..<n])"
    by (simp only: map_add_upt add.commute)
  then show ?thesis
    by (simp add: comp_def add.commute)
qed

text \<open>The scan never dereferences a character behind the terminator of the string.\<close>

lemma bar_derefs_within_string:
  assumes "cstring h (Ptr b off) s"
  shows "\<exists>r. bar_scan h (Ptr b off) len = Inr r \<and>
    set (derefs r) \<subseteq> Ptr b ` {off..off + length s}"
proof -
  have "steps s 0 len 0 \<le> length s"
    by (simp add: steps_start)
  then have "{off..<off + steps s 0 len 0 + 1} \<subseteq> {off..off + length s}"
    by auto
  then have "Ptr b ` {off..<off + steps s 0 len 0 + 1} \<subseteq> Ptr b ` {off..off + length s}"
    by (rule image_mono)
  then show ?thesis
    by (simp add: bar_scan_cstring [OF assms] del: upt_Suc)
qed

section \<open>Claims\<close>

text \<open>
  C1, as stated: for every string \<open>str\<close> and every bound \<open>len \<le> length(str)\<close>, \<open>bar\<close>
  increments its counter exactly \<open>min(len, length(str))\<close> times. This fails for a negative
  bound: with \<open>str = "Hello"\<close> and \<open>len = -1\<close> the counter stays 0, while
  \<open>min(len, length(str))\<close> is \<open>-1\<close>.
\<close>

theorem bar_counter_negative_len:
  "cstring literals (Ptr 0 0) ''Hello'' \<and>
   sint (- 1 :: c_int) \<le> int (length ''Hello'') \<and>
   bar_scan literals (Ptr 0 0) (- 1) = Inr \<lparr>cursor = Ptr 0 1, counter = 0, derefs = [Ptr 0 0]\<rparr> \<and>
   sint (0 :: c_int) \<noteq> min (sint (- 1 :: c_int)) (int (length ''Hello''))"
  by code_simp

text \<open>
  C1, amended: for every string \<open>str\<close> and every bound \<open>len \<le> length(str)\<close>, \<open>bar\<close>
  increments its counter exactly \<open>max(0, min(len, length(str)))\<close> times and prints
  "Matching count ? No"; the "Yes" message is printed exactly when the cursor after the
  scan is the null pointer, which never happens.
\<close>

theorem bar_counts_bounded_prefix:
  assumes "cstring h str s" and "sint len \<le> int (length s)"
  shows "\<exists>r. bar_scan h str len = Inr r \<and>
    sint (counter r) = max 0 (min (sint len) (int (length s))) \<and>
    bar h str len out =
      Inr (out @ [''Matching count ? '' @ (if cursor r = Null then ''Yes'' else ''No'') @ ''\<newline>'']) \<and>
    cursor r \<noteq> Null \<and>
    bar h str len out = Inr (out @ [''Matching count ? No\<newline>''])"
proof (cases str)
  case Null
  with assms(1) show ?thesis by simp
next
  case (Ptr b off)
  with assms(1) have "cstring h (Ptr b off) s" by simp
  note scan = bar_scan_cstring [OF this, of len]
  show ?thesis
    unfolding Ptr by (simp add: scan sint_counter bar_def printf_def)
qed

theorem bar_counts_bounded_prefix_witness:
  "cstring literals (Ptr 0 0) ''Hello'' \<and> sint (3 :: c_int) \<le> int (length ''Hello'') \<and>
   (\<exists>r. bar_scan literals (Ptr 0 0) 3 = Inr r \<and> sint (counter r) = 3 \<and>
     bar literals (Ptr 0 0) 3 [] =
       Inr ([] @ [''Matching count ? '' @ (if cursor r = Null then ''Yes'' else ''No'') @ ''\<newline>'']) \<and>
     cursor r \<noteq> Null \<and>
     bar literals (Ptr 0 0) 3 [] = Inr ([] @ [''Matching count ? No\<newline>'']))"
proof -
  note c = cstring_Hello
  have l: "sint (3 :: c_int) \<le> int (length ''Hello'')"
    by simp
  show ?thesis
    using c l bar_counts_bounded_prefix [OF c l, of "[]"] by simp
qed

text \<open>
  C2: the claim says that every index \<open>bar\<close> dereferences is below \<open>len\<close> or is the first
  terminator. With \<open>str = "Hello"\<close> and \<open>len = 3\<close> the scan dereferences the indices
  0, 1, 2 and 3: the loop condition reads \<open>*c\<close> before it tests \<open>i < len\<close>, so the
  character at index \<open>len\<close>, here \<open>'l'\<close>, is read although it is neither below the bound
  nor the terminator.
\<close>

theorem bar_derefs_index_len:
  "cstring literals (Ptr 0 0) ''Hello'' \<and>
   bar_scan literals (Ptr 0 0) 3 =
     Inr \<lparr>cursor = Ptr 0 4, counter = 3, derefs = [Ptr 0 0, Ptr 0 1, Ptr 0 2, Ptr 0 3]\<rparr> \<and>
   load literals (Ptr 0 3) = Inr CHR ''l'' \<and> CHR ''l'' \<noteq> NUL"
  by code_simp

text \<open>
  C3: for every \<open>x < 10\<close> and every \<open>str\<close> and \<open>len\<close>, \<open>foo\<close> returns \<open>-1\<close> and prints
  "X less than 10" and nothing else: \<open>bar\<close> is not called, so neither its
  "Matching count" line nor the "has ... chars" line appears. The witness passes a null
  \<open>str\<close>, on which a call of \<open>bar\<close> would fault.
\<close>

theorem foo_below_threshold:
  assumes "x <s 10"
  shows "foo h x str len out = Inr (- 1, out @ [''X less than 10\<newline>''])"
  using assms by (simp add: foo_def printf_def)

theorem foo_below_threshold_witness:
  "(5 :: c_int) <s 10 \<and> foo literals 5 Null 0 [] = Inr (- 1, [] @ [''X less than 10\<newline>'']) \<and>
   sint (- 1 :: c_int) = - 1 \<and> bar literals Null 0 [] = Inl Null_deref"
proof -
  have x: "(5 :: c_int) <s 10"
    by (simp add: word_sless_alt)
  have "bar literals Null 0 [] = Inl Null_deref"
    by (simp add: bar_def bar_scan_def bar_loop.simps)
  then show ?thesis
    using x foo_below_threshold [OF x, of literals Null 0 "[]"] by simp
qed

text \<open>
  C4, as stated: for every \<open>x \<ge> 10\<close> and every \<open>str\<close> and \<open>len\<close>, \<open>foo\<close> returns the byte
  count of the line "<str> has <len> chars" with its newline, a positive integer. This
  fails for a string so long that the line has more than \<open>INT_MAX\<close> bytes: with \<open>x = 10\<close>,
  \<open>len = 0\<close> and a string of \<open>2^31\<close> characters \<open>'a'\<close>, the line has \<open>2^31 + 13\<close> bytes
  and \<open>foo\<close> returns \<open>-1\<close>, which is neither positive nor the length of the line.
\<close>

theorem foo_long_line_returns_minus_one:
  "10 \<le>s (10 :: c_int) \<and>
   cstring (heap_of (replicate (2 ^ 31) CHR ''a'')) (Ptr 0 0) (replicate (2 ^ 31) CHR ''a'') \<and>
   foo (heap_of (replicate (2 ^ 31) CHR ''a'')) 10 (Ptr 0 0) 0 [] =
     Inr (- 1, [''Matching count ? No\<newline>'',
                replicate (2 ^ 31) CHR ''a'' @ '' has 0 chars\<newline>'']) \<and>
   \<not> 0 < sint (- 1 :: c_int) \<and>
   sint (- 1 :: c_int) \<noteq> int (length (replicate (2 ^ 31) CHR ''a'' @ '' has 0 chars\<newline>''))"
proof -
  define n :: nat where "n = 2 ^ 31"
  define s where "s = replicate n CHR ''a''"
  have len: "length s = n"
    by (simp add: s_def)
  have "set s \<subseteq> {CHR ''a''}"
    by (simp add: s_def set_replicate_conv_if)
  then have nn: "NUL \<notin> set s"
    by (auto simp: NUL_def)
  have x: "10 \<le>s (10 :: c_int)"
    by (simp add: word_sle_eq)
  have nx: "\<not> (10 :: c_int) <s 10"
    by (simp add: word_sless_alt)
  have c: "cstring (heap_of s) (Ptr 0 0) s"
    using nn by (simp add: heap_of_def)
  have d: "fmt_d 0 = ''0''"
    by (simp add: fmt_d_def dec_digits.simps)
  have long: "\<not> int (length (s @ '' has 0 chars\<newline>'')) < 2 ^ 31"
    by (simp add: len n_def)
  have "foo (heap_of s) 10 (Ptr 0 0) 0 [] =
      Inr (printf (s @ '' has '' @ fmt_d 0 @ '' chars\<newline>'') [''Matching count ? No\<newline>''])"
    using nx by (simp add: foo_def bar_cstring [OF c] fmt_s_cstring [OF c] del: fmt_s.simps)
  also have "\<dots> = Inr (- 1, [''Matching count ? No\<newline>'', s @ '' has 0 chars\<newline>''])"
    using long by (simp add: printf_def d)
  finally have r: "foo (heap_of s) 10 (Ptr 0 0) 0 [] =
      Inr (- 1, [''Matching count ? No\<newline>'', s @ '' has 0 chars\<newline>''])" .
  have p: "\<not> 0 < sint (- 1 :: c_int)"
    by simp
  have q: "sint (- 1 :: c_int) \<noteq> int (length (s @ '' has 0 chars\<newline>''))"
    by simp
  from x c r p q have
    "10 \<le>s (10 :: c_int) \<and> cstring (heap_of s) (Ptr 0 0) s \<and>
     foo (heap_of s) 10 (Ptr 0 0) 0 [] =
       Inr (- 1, [''Matching count ? No\<newline>'', s @ '' has 0 chars\<newline>'']) \<and>
     \<not> 0 < sint (- 1 :: c_int) \<and>
     sint (- 1 :: c_int) \<noteq> int (length (s @ '' has 0 chars\<newline>''))"
    by (intro conjI)
  then show ?thesis
    unfolding s_def n_def .
qed

text \<open>
  C4, amended: for every \<open>x \<ge> 10\<close>, every string \<open>str\<close> and every \<open>len\<close> for which the
  line "<str> has <len> chars" with its newline has at most \<open>INT_MAX = 2^31 - 1\<close> bytes,
  \<open>foo\<close> does not print "X less than 10"; what it adds to the output is the line of
  \<open>bar\<close> and that line, and it returns the number of bytes of that line, a positive
  integer.
\<close>

theorem foo_returns_byte_count:
  assumes "10 \<le>s x" and "cstring h str s"
    and "length (s @ '' has '' @ fmt_d len @ '' chars\<newline>'') < 2 ^ 31"
  shows "let line = s @ '' has '' @ fmt_d len @ '' chars\<newline>'';
             ret = of_nat (length line) :: c_int
         in foo h x str len out = Inr (ret, out @ [''Matching count ? No\<newline>'', line]) \<and>
            sint ret = int (length line) \<and> 0 < sint ret"
proof -
  define line where "line = s @ '' has '' @ fmt_d len @ '' chars\<newline>''"
  have fits: "length line < 2 ^ 31"
    using assms(3) by (simp only: line_def)
  then have "int (length line) < int (2 ^ 31)"
    by (simp only: of_nat_less_iff)
  then have fits_int: "int (length line) < 2 ^ 31"
    by simp
  have "\<not> x <s 10"
    using assms(1) by (simp add: not_sless_iff_sle)
  then have "foo h x str len out = Inr (printf line (out @ [''Matching count ? No\<newline>'']))"
    by (simp add: foo_def bar_cstring [OF assms(2)] fmt_s_cstring [OF assms(2)] line_def)
  then have "foo h x str len out =
      Inr (of_nat (length line), out @ [''Matching count ? No\<newline>'', line])"
    using fits_int by (simp add: printf_def)
  moreover have "sint (of_nat (length line) :: c_int) = int (length line)"
    using fits by (rule sint_of_nat_small)
  moreover have "0 < length line"
    by (simp add: line_def)
  ultimately show ?thesis
    unfolding Let_def line_def by simp
qed

theorem foo_returns_byte_count_witness:
  "10 \<le>s (10 :: c_int) \<and> cstring literals (Ptr 0 0) ''Hello'' \<and>
   length (''Hello'' @ '' has '' @ fmt_d 5 @ '' chars\<newline>'') < 2 ^ 31 \<and>
   foo literals 10 (Ptr 0 0) 5 [] =
     Inr (18, [''Matching count ? No\<newline>'', ''Hello has 5 chars\<newline>'']) \<and>
   sint (18 :: c_int) = int (length ''Hello has 5 chars\<newline>'') \<and> 0 < sint (18 :: c_int)"
proof -
  have x: "10 \<le>s (10 :: c_int)"
    by (simp add: word_sle_eq)
  note c = cstring_Hello
  have d: "fmt_d 5 = ''5''"
    by (simp add: fmt_d_def dec_digits.simps)
  have l: "length (''Hello'' @ '' has '' @ fmt_d 5 @ '' chars\<newline>'') < 2 ^ 31"
    by (simp add: d)
  show ?thesis
    using x c l foo_returns_byte_count [OF x c l, of "[]"] by (simp add: d Let_def)
qed

text \<open>
  C5, as stated: with \<open>x = 10\<close>, \<open>str = "Hello"\<close> and \<open>len = 5\<close> the program prints the
  sequence "Hello has 5 chars", "Matching count ? No", "Foo return : 18". The program
  does not print its lines in this order.
\<close>

theorem main_output_order:
  "map_sum id snd main \<noteq>
     Inr [''Hello has 5 chars\<newline>'', ''Matching count ? No\<newline>'', ''Foo return : 18\<newline>'']"
  by code_simp

text \<open>
  C5, amended: with \<open>x = 10\<close>, \<open>str = "Hello"\<close> and \<open>len = 5\<close> the program prints
  exactly the sequence "Matching count ? No", "Hello has 5 chars", "Foo return : 18",
  where 18 is the number of characters of "Hello has 5 chars" with its newline.
\<close>

theorem main_prints:
  "main = Inr (0, [''Matching count ? No\<newline>'', ''Hello has 5 chars\<newline>'',
                   ''Foo return : 18\<newline>'']) \<and>
   length ''Hello has 5 chars\<newline>'' = 18"
  by code_simp

text \<open>
  C6: for every character \<open>c\<close>, \<open>send_char\<close> makes exactly one transmit call, on
  \<open>huart2\<close>, with that character as the only byte, a size of one and the largest
  timeout there is; the status the call returns has no influence on what \<open>send_char\<close>
  leaves behind.
\<close>

theorem send_char_transmits_once:
  "send_char dev c calls =
     calls @ [\<lparr>huart = huart2, pData = [c], Size = 1, Timeout = HAL_MAX_DELAY\<rparr>] \<and>
   send_char dev c calls = send_char dev' c calls \<and>
   (t :: 32 word) \<le> HAL_MAX_DELAY"
proof -
  have max: "HAL_MAX_DELAY = - 1"
    by (simp add: HAL_MAX_DELAY_def)
  have "(t :: 32 word) \<le> HAL_MAX_DELAY"
    unfolding max by (rule word_n1_ge)
  then show ?thesis
    by (simp add: send_char_def HAL_UART_Transmit_def Let_def)
qed

text \<open>
  C7: when \<open>x \<ge> 10\<close>, \<open>foo\<close> calls \<open>bar\<close> before it prints its own line, so the
  "Matching count" line of \<open>bar\<close> comes first in the output and the line
  "<str> has <len> chars" follows it.
\<close>

theorem foo_bar_before_line:
  assumes "10 \<le>s x" and "cstring h str s"
  shows "\<exists>ret. bar h str len out = Inr (out @ [''Matching count ? No\<newline>'']) \<and>
    foo h x str len out =
      Inr (ret, (out @ [''Matching count ? No\<newline>'']) @ [s @ '' has '' @ fmt_d len @ '' chars\<newline>''])"
proof -
  have "\<not> x <s 10"
    using assms(1) by (simp add: not_sless_iff_sle)
  then show ?thesis
    by (simp add: foo_def bar_cstring [OF assms(2)] fmt_s_cstring [OF assms(2)] printf_def)
qed

theorem foo_bar_before_line_witness:
  "10 \<le>s (12 :: c_int) \<and> cstring literals (Ptr 0 0) ''Hello'' \<and>
   (\<exists>ret. bar literals (Ptr 0 0) 2 [] = Inr ([] @ [''Matching count ? No\<newline>'']) \<and>
     foo literals 12 (Ptr 0 0) 2 [] =
       Inr (ret, ([] @ [''Matching count ? No\<newline>'']) @ [''Hello'' @ '' has '' @ fmt_d 2 @ '' chars\<newline>'']))"
proof -
  have x: "10 \<le>s (12 :: c_int)"
    by (simp add: word_sle_eq)
  note c = cstring_Hello
  show ?thesis
    using x c foo_bar_before_line [OF x c, of 2 "[]"] by blast
qed

text \<open>
  C8: for every string \<open>str\<close> and every bound \<open>len\<close>, the scan dereferences the
  characters of \<open>str\<close> in order from its start, and when the loop ends the cursor is as
  many characters from the start of \<open>str\<close> as were dereferenced: one past the last
  character examined. When that last character is the terminator, the cursor is just
  behind the terminator.
\<close>

theorem bar_cursor_past_last_deref:
  assumes "cstring h str s"
  shows "\<exists>r. bar_scan h str len = Inr r \<and>
    derefs r = map (ptr_add str) [0..<length (derefs r)] \<and>
    cursor r = ptr_add str (length (derefs r)) \<and>
    derefs r \<noteq> [] \<and> cursor r = ptr_inc (last (derefs r)) \<and>
    (load h (last (derefs r)) = Inr NUL \<longrightarrow> cursor r = ptr_add str (length s + 1))"
proof (cases str)
  case Null
  with assms show ?thesis by simp
next
  case (Ptr b off)
  with assms have cs: "cstring h (Ptr b off) s" by simp
  define m where "m = steps s 0 len 0"
  define r where "r = \<lparr>cursor = Ptr b (off + m + 1), counter = of_nat m :: c_int,
    derefs = map (Ptr b) [off..<off + m + 1]\<rparr>"
  have scan: "bar_scan h (Ptr b off) len = Inr r"
    by (simp only: bar_scan_cstring [OF cs] r_def m_def)
  have m: "m \<le> length s"
    by (simp add: m_def steps_start)
  have len: "length (derefs r) = m + 1"
    by (simp add: r_def)
  have idx: "derefs r = map (ptr_add (Ptr b off)) [0..<length (derefs r)]"
    unfolding len by (simp only: map_ptr_add) (simp add: r_def)
  have cur: "cursor r = ptr_add (Ptr b off) (length (derefs r))"
    unfolding len by (simp add: r_def)
  have ne: "derefs r \<noteq> []"
    using len by auto
  have lst: "last (derefs r) = Ptr b (off + m)"
    by (simp add: r_def last_map)
  have past: "cursor r = ptr_inc (last (derefs r))"
    unfolding lst by (simp add: r_def)
  have at_end: "cursor r = ptr_add (Ptr b off) (length s + 1)"
    if "load h (last (derefs r)) = Inr NUL"
  proof -
    from that have nul: "load h (Ptr b (off + m)) = Inr NUL"
      by (simp only: lst)
    have "m = length s"
    proof (rule ccontr)
      assume "m \<noteq> length s"
      with m have "m < length s" by simp
      from load_cstring_char [OF cs this] nul show False by simp
    qed
    then show ?thesis
      by (simp add: r_def)
  qed
  show ?thesis
    unfolding Ptr using scan idx cur ne past at_end by blast
qed

theorem bar_cursor_past_last_deref_witness:
  "cstring literals (Ptr 0 0) ''Hello'' \<and>
   (\<exists>r. bar_scan literals (Ptr 0 0) 9 = Inr r \<and>
    derefs r = map (ptr_add (Ptr 0 0)) [0..<length (derefs r)] \<and>
    cursor r = ptr_add (Ptr 0 0) (length (derefs r)) \<and>
    derefs r \<noteq> [] \<and> cursor r = ptr_inc (last (derefs r)) \<and>
    (load literals (last (derefs r)) = Inr NUL \<longrightarrow> cursor r = ptr_add (Ptr 0 0) (length ''Hello'' + 1))) \<and>
   bar_scan literals (Ptr 0 0) 9 =
     Inr \<lparr>cursor = Ptr 0 6, counter = 5,
          derefs = [Ptr 0 0, Ptr 0 1, Ptr 0 2, Ptr 0 3, Ptr 0 4, Ptr 0 5]\<rparr> \<and>
   load literals (Ptr 0 5) = Inr NUL"
proof -
  note c = cstring_Hello
  have e: "bar_scan literals (Ptr 0 0) 9 =
     Inr \<lparr>cursor = Ptr 0 6, counter = 5,
          derefs = [Ptr 0 0, Ptr 0 1, Ptr 0 2, Ptr 0 3, Ptr 0 4, Ptr 0 5]\<rparr>"
    by code_simp
  have n: "load literals (Ptr 0 5) = Inr NUL"
    by (simp add: literals_def)
  show ?thesis
    using c e n bar_cursor_past_last_deref [OF c, of 9] by blast
qed

text \<open>
  C9: for every string \<open>str\<close>, the empty one included, and every bound \<open>len\<close>, also a
  negative one or zero, \<open>bar\<close> prints exactly one line, and the line is
  "Matching count ? No".
\<close>

theorem bar_always_prints_No:
  assumes "cstring h str s"
  shows "bar h str len out = Inr (out @ [''Matching count ? No\<newline>''])"
proof (cases str)
  case Null
  with assms show ?thesis by simp
next
  case (Ptr b off)
  with assms have "cstring h (Ptr b off) s" by simp
  from bar_scan_cstring [OF this, of len] show ?thesis
    unfolding Ptr by (simp add: bar_def printf_def)
qed

theorem bar_always_prints_No_witness:
  "cstring (\<lambda>b. Some [NUL]) (Ptr 0 0) '''' \<and>
   bar (\<lambda>b. Some [NUL]) (Ptr 0 0) (- 3) [] = Inr ([] @ [''Matching count ? No\<newline>''])"
proof -
  have c: "cstring (\<lambda>b. Some [NUL]) (Ptr 0 0) ''''"
    by simp
  show ?thesis
    using c bar_always_prints_No [OF c, of "- 3" "[]"] by simp
qed

text \<open>
  C10: for every string \<open>str\<close> and every bound \<open>len \<ge> length(str)\<close>, the counter of
  \<open>bar\<close> ends equal to \<open>length(str)\<close>: the scan stops with the read of the terminator,
  which is the character at index \<open>length(str)\<close>.
\<close>

theorem bar_counter_full_length:
  assumes "cstring h str s" and "int (length s) \<le> sint len"
  shows "\<exists>r. bar_scan h str len = Inr r \<and> sint (counter r) = int (length s) \<and>
    length (derefs r) = length s + 1 \<and> load h (last (derefs r)) = Inr NUL"
proof (cases str)
  case Null
  with assms(1) show ?thesis by simp
next
  case (Ptr b off)
  with assms(1) have cs: "cstring h (Ptr b off) s" by simp
  have m: "steps s 0 len 0 = length s"
    using assms(2) by (simp add: steps_start)
  have "sint (of_nat (steps s 0 len 0) :: c_int) = int (length s)"
    using assms(2) by (simp add: sint_counter)
  moreover have "last (map (Ptr b) [off..<off + length s + 1]) = Ptr b (off + length s)"
    by (simp add: last_map)
  ultimately show ?thesis
    unfolding Ptr bar_scan_cstring [OF cs, of len]
    using load_cstring_NUL [OF cs] by (simp add: m del: upt_Suc)
qed

theorem bar_counter_full_length_witness:
  "cstring literals (Ptr 0 0) ''Hello'' \<and> int (length ''Hello'') \<le> sint (7 :: c_int) \<and>
   (\<exists>r. bar_scan literals (Ptr 0 0) 7 = Inr r \<and> sint (counter r) = int (length ''Hello'') \<and>
     length (derefs r) = length ''Hello'' + 1 \<and> load literals (last (derefs r)) = Inr NUL)"
proof -
  note c = cstring_Hello
  have l: "int (length ''Hello'') \<le> sint (7 :: c_int)"
    by simp
  show ?thesis
    using c l bar_counter_full_length [OF c l] by blast
qed

end
